theory Spec2Isabelle
  imports Main
begin

section \<open>Session controller (the SoundSpace component)\<close>

text \<open>
  The component keeps three pieces of React state (\<open>activeInstrument\<close>, \<open>isRecording\<close>,
  \<open>recordedNotes\<close>) and one ref (\<open>recordingStartTime\<close>). A handler is modelled as a
  function from the state before the event to the state after it. \<open>Date.now()\<close> is an
  input of the handler that reads it: a number of milliseconds, an \<open>int\<close>.
\<close>

datatype Instrument = piano | drums

text \<open>
  The fields \<open>note\<close> and \<open>notes\<close> of the source are \<open>note'\<close> and \<open>notes'\<close> here:
  both words are keywords of the prover.
\<close>

record NoteEvent =
  instrument :: Instrument
  note' :: string
  timestamp :: int

record session =
  activeInstrument :: Instrument
  isRecording :: bool
  recordedNotes :: "NoteEvent list"
  recordingStartTime :: int

text \<open>The values of the \<open>useState\<close> and \<open>useRef\<close> initialisers.\<close>

definition initial_session :: session where
  "initial_session =
     \<lparr>activeInstrument = piano, isRecording = False, recordedNotes = [],
      recordingStartTime = 0\<rparr>"

definition setActiveInstrument :: "Instrument \<Rightarrow> session \<Rightarrow> session" where
  "setActiveInstrument i s = s\<lparr>activeInstrument := i\<rparr>"

definition handleStartRecording :: "int \<Rightarrow> session \<Rightarrow> session" where
  "handleStartRecording now s =
     s\<lparr>isRecording := True, recordedNotes := [], recordingStartTime := now\<rparr>"

definition handleStopRecording :: "session \<Rightarrow> session" where
  "handleStopRecording s = s\<lparr>isRecording := False\<rparr>"

text \<open>
  \<open>handleNotePlay\<close> is a \<open>useCallback\<close> with the dependency list
  \<open>[isRecording, activeInstrument]\<close>. Inside it, \<open>isRecording\<close> and \<open>activeInstrument\<close>
  are constants of the render that made the callback; they are the first two arguments
  here (\<open>rec\<close>, \<open>inst\<close>). The start time is read from the ref when the callback runs,
  and the log is extended by a functional update (\<open>prev => [...prev, noteEvent]\<close>), so
  both come from the state the callback runs in.
\<close>

definition handleNotePlay ::
    "bool \<Rightarrow> Instrument \<Rightarrow> string \<Rightarrow> int \<Rightarrow> session \<Rightarrow> session" where
  "handleNotePlay rec inst n now s =
     (if rec then
        s\<lparr>recordedNotes := recordedNotes s @
           [\<lparr>instrument = inst, note' = n,
             timestamp = now - recordingStartTime s\<rparr>]\<rparr>
      else s)"

text \<open>
  Every change of \<open>isRecording\<close> or \<open>activeInstrument\<close> makes a new callback, which is
  handed to the panel as its \<open>onNotePlay\<close>. Which of these callbacks a call reaches is
  decided by the panel; see the section on the panel and the controller together.
\<close>

text \<open>
  The exported document. \<open>JSON.stringify\<close>, the blob and the anchor element belong to
  the browser; the model keeps what is handed to them: the object that is serialised and
  the epoch milliseconds that go into the file name
  \<open>soundspace-recording-<epoch-ms>.json\<close>. The title is the fixed prefix followed by
  the ISO string of the current date, which is an input.
\<close>

record recording =
  title :: string
  notes' :: "NoteEvent list"
  duration :: int

record download =
  file_epoch :: int
  content :: recording

text \<open>JavaScript's \<open>x || 0\<close> on a number: \<open>0\<close> is falsy, every other integer is kept.\<close>

definition or_zero :: "int \<Rightarrow> int" where
  "or_zero x = (if x = 0 then 0 else x)"

text \<open>
  \<open>handleDownloadRecording\<close> calls no state setter; it returns the state it was given
  together with the file it offers, \<open>None\<close> when it returns early on the empty log.
\<close>

definition handleDownloadRecording ::
    "string \<Rightarrow> int \<Rightarrow> session \<Rightarrow> session \<times> download option" where
  "handleDownloadRecording isoDate now s =
     (if length (recordedNotes s) = 0 then (s, None)
      else
        (s, Some \<lparr>file_epoch = now,
                  content =
                    \<lparr>title = ''SoundSpace Recording - '' @ isoDate,
                     notes' = recordedNotes s,
                     duration =
                       or_zero (timestamp (recordedNotes s ! (length (recordedNotes s) - 1)))\<rparr>\<rparr>))"

text \<open>
  The actions on the controller, and a run of them in order. \<open>NotePlay rec inst\<close> is a
  call of \<open>onNotePlay\<close> that reaches the callback of a render in which \<open>isRecording\<close> and
  \<open>activeInstrument\<close> had the values \<open>rec\<close> and \<open>inst\<close>: the current render or an
  earlier one.
\<close>

datatype action =
    SelectInstrument Instrument
  | StartRecording int
  | StopRecording
  | NotePlay bool Instrument string int
  | Download string int

fun act :: "action \<Rightarrow> session \<Rightarrow> session" where
  "act (SelectInstrument i) s = setActiveInstrument i s"
| "act (StartRecording now) s = handleStartRecording now s"
| "act StopRecording s = handleStopRecording s"
| "act (NotePlay rec inst n now) s = handleNotePlay rec inst n now s"
| "act (Download isoDate now) s = fst (handleDownloadRecording isoDate now s)"

fun acts :: "action list \<Rightarrow> session \<Rightarrow> session" where
  "acts [] s = s"
| "acts (a # as) s = acts as (act a s)"

text \<open>The clock readings of the note calls of a run, in order.\<close>

fun note_times :: "action list \<Rightarrow> int list" where
  "note_times [] = []"
| "note_times (NotePlay rec inst n now # as) = now # note_times as"
| "note_times (a # as) = note_times as"

fun is_session_boundary :: "action \<Rightarrow> bool" where
  "is_session_boundary (StartRecording now) = True"
| "is_session_boundary StopRecording = True"
| "is_session_boundary a = False"

section \<open>Instrument panels (the Piano and Drums components)\<close>

text \<open>
  Both panels keep a set of pressed physical keys and a set of notes (or pads) shown
  active, and both read the state of the audio context before they play. A handler is a
  function from the panel state to the new state and the list of calls it makes to the
  outside, in order: \<open>Tone.start()\<close>, \<open>triggerAttackRelease\<close> on a synth, and the
  \<open>onNotePlay\<close> callback. A handler runs to its end before the next event is handled;
  the \<open>await\<close> of \<open>Tone.start()\<close> is taken to resolve, after which the context runs.

  Each play sets a timeout whose callback removes the note (or pad) from the active set.
  The state holds the callbacks that are still pending, oldest first, as the list of the
  names they will remove. All timeouts of one panel have the same delay, so the oldest
  pending one is the next to run.
\<close>

datatype synth = PianoSynth | DrumSynth string

datatype effect =
    ToneStart
  | TriggerAttackRelease synth "string list"
  | OnNotePlay string

datatype event =
    KeyDown string
  | KeyUp string
  | MouseDown string
  | TimeoutFires

record panel =
  contextRunning :: bool
  pressedKeys :: "string set"
  timeouts :: "string list"

text \<open>
  \<open>event.key.toLowerCase()\<close>, on the ASCII letters: a capital letter goes to its small
  letter, every other byte stays. (JavaScript also maps letters outside ASCII; none of
  them is a byte of a \<open>string\<close> here.)
\<close>

definition capitals :: "(char \<times> char) list" where
  "capitals = zip ''ABCDEFGHIJKLMNOPQRSTUVWXYZ'' ''abcdefghijklmnopqrstuvwxyz''"

definition lower_char :: "char \<Rightarrow> char" where
  "lower_char c = (case map_of capitals c of Some l \<Rightarrow> l | None \<Rightarrow> c)"

definition toLowerCase :: "string \<Rightarrow> string" where
  "toLowerCase k = map lower_char k"

fun is_keydown_of :: "string \<Rightarrow> event \<Rightarrow> bool" where
  "is_keydown_of k (KeyDown x) = (toLowerCase x = k)"
| "is_keydown_of k e = False"

fun is_keyup_of :: "string \<Rightarrow> event \<Rightarrow> bool" where
  "is_keyup_of k (KeyUp x) = (toLowerCase x = k)"
| "is_keyup_of k e = False"

subsection \<open>Piano\<close>

definition whiteKeys :: "string list" where
  "whiteKeys = [''C4'', ''D4'', ''E4'', ''F4'', ''G4'', ''A4'', ''B4'', ''C5'']"

definition blackKeys :: "string option list" where
  "blackKeys = [Some ''C#4'', Some ''D#4'', None, Some ''F#4'', Some ''G#4'', Some ''A#4'', None]"

text \<open>
  The object literal \<open>keyboardMapping\<close>, as the list of its entries in the order of
  \<open>Object.keys\<close>. A lookup \<open>keyboardMapping[key]\<close> is \<open>map_of keyboardMapping key\<close>;
  every value of the table is a non-empty string, which JavaScript takes as true.
\<close>

definition keyboardMapping :: "(string \<times> string) list" where
  "keyboardMapping =
     [(''a'', ''C4''), (''s'', ''D4''), (''d'', ''E4''), (''f'', ''F4''),
      (''g'', ''G4''), (''h'', ''A4''), (''j'', ''B4''), (''k'', ''C5''),
      (''w'', ''C#4''), (''e'', ''D#4''), (''t'', ''F#4''), (''y'', ''G#4''),
      (''u'', ''A#4'')]"

text \<open>\<open>synthRef\<close> is true when \<open>synthRef.current\<close> holds the synth made on mount.\<close>

record piano = panel +
  synthRef :: bool
  activeKeys :: "string set"

definition playNote :: "string \<Rightarrow> piano \<Rightarrow> piano \<times> effect list" where
  "playNote n s =
     (if \<not> synthRef s then (s, [])
      else
        (s\<lparr>contextRunning := True,
           activeKeys := insert n (activeKeys s),
           timeouts := timeouts s @ [n]\<rparr>,
         (if contextRunning s then [] else [ToneStart]) @
           [TriggerAttackRelease PianoSynth [n, ''8n''], OnNotePlay n]))"

definition handleKeyDown_Piano :: "string \<Rightarrow> piano \<Rightarrow> piano \<times> effect list" where
  "handleKeyDown_Piano event_key s =
     (case map_of keyboardMapping (toLowerCase event_key) of
        Some n \<Rightarrow>
          if toLowerCase event_key \<notin> pressedKeys s
          then playNote n (s\<lparr>pressedKeys := insert (toLowerCase event_key) (pressedKeys s)\<rparr>)
          else (s, [])
      | None \<Rightarrow> (s, []))"

definition handleKeyUp_Piano :: "string \<Rightarrow> piano \<Rightarrow> piano" where
  "handleKeyUp_Piano event_key s =
     (case map_of keyboardMapping (toLowerCase event_key) of
        Some n \<Rightarrow>
          s\<lparr>pressedKeys := pressedKeys s - {toLowerCase event_key},
            activeKeys := activeKeys s - {n}\<rparr>
      | None \<Rightarrow> s)"

definition handleKeyPress :: "string \<Rightarrow> piano \<Rightarrow> piano \<times> effect list" where
  "handleKeyPress n s = playNote n s"

text \<open>The callback of the oldest pending timeout: it deletes its note from \<open>activeKeys\<close>.\<close>

definition timeout_Piano :: "piano \<Rightarrow> piano" where
  "timeout_Piano s =
     (case timeouts s of
        [] \<Rightarrow> s
      | n # rest \<Rightarrow> s\<lparr>activeKeys := activeKeys s - {n}, timeouts := rest\<rparr>)"

text \<open>
  \<open>isKeyActive\<close>: \<open>Object.values(...).includes(note)\<close> is membership among the values,
  \<open>Object.keys(...).find(...)\<close> the first key whose value is the note, and the
  alternative of \<open>||\<close> the empty string when there is none.
\<close>

definition isKeyActive :: "string \<Rightarrow> piano \<Rightarrow> bool" where
  "isKeyActive n s =
     (n \<in> activeKeys s \<or>
      (n \<in> set (map snd keyboardMapping) \<and>
       (case find (\<lambda>k. map_of keyboardMapping k = Some n) (map fst keyboardMapping) of
          Some k \<Rightarrow> k
        | None \<Rightarrow> []) \<in> pressedKeys s))"

text \<open>
  One event of the piano. A mouse press reaches \<open>handleKeyPress\<close> only through a button,
  and there is one button for each white key and each black key that is not \<open>null\<close>.
\<close>

fun step_Piano :: "event \<Rightarrow> piano \<Rightarrow> piano \<times> effect list" where
  "step_Piano (KeyDown x) s = handleKeyDown_Piano x s"
| "step_Piano (KeyUp x) s = (handleKeyUp_Piano x s, [])"
| "step_Piano (MouseDown n) s =
     (if n \<in> set whiteKeys \<or> Some n \<in> set blackKeys then handleKeyPress n s else (s, []))"
| "step_Piano TimeoutFires s = (timeout_Piano s, [])"

fun run_Piano :: "event list \<Rightarrow> piano \<Rightarrow> piano \<times> effect list" where
  "run_Piano [] s = (s, [])"
| "run_Piano (e # es) s =
     (case step_Piano e s of
        (s1, out1) \<Rightarrow> (case run_Piano es s1 of (s2, out2) \<Rightarrow> (s2, out1 @ out2)))"

text \<open>The piano after mount: the synth is made, both sets are empty, nothing is pending.\<close>

definition mounted_Piano :: "bool \<Rightarrow> piano" where
  "mounted_Piano running =
     \<lparr>contextRunning = running, pressedKeys = {}, timeouts = [],
      synthRef = True, activeKeys = {}\<rparr>"

text \<open>
  The two conditions of the visual state of a note: a timeout set by a play of the note
  is still pending (its window is open), and a key mapped to the note is held.
\<close>

definition window_open :: "string \<Rightarrow> 'a panel_scheme \<Rightarrow> bool" where
  "window_open n s = (n \<in> set (timeouts s))"

definition key_held_Piano :: "string \<Rightarrow> piano \<Rightarrow> bool" where
  "key_held_Piano n s = list_ex (\<lambda>(k, m). m = n \<and> k \<in> pressedKeys s) keyboardMapping"

subsection \<open>Drums\<close>

text \<open>An entry of \<open>drumSounds\<close>; the fields carry the prefix \<open>drum_\<close>.\<close>

record drumSound =
  drum_name :: string
  drum_key :: string
  drum_color :: string
  drum_note :: string

definition drumSounds :: "drumSound list" where
  "drumSounds =
     [\<lparr>drum_name = ''Kick'', drum_key = ''s'', drum_color = ''from-red-500 to-red-600'',
       drum_note = ''C2''\<rparr>,
      \<lparr>drum_name = ''Snare'', drum_key = ''d'', drum_color = ''from-orange-500 to-orange-600'',
       drum_note = ''D2''\<rparr>,
      \<lparr>drum_name = ''Hi-Hat'', drum_key = ''f'', drum_color = ''from-yellow-500 to-yellow-600'',
       drum_note = ''F#2''\<rparr>,
      \<lparr>drum_name = ''Crash'', drum_key = ''g'', drum_color = ''from-green-500 to-green-600'',
       drum_note = ''A#2''\<rparr>,
      \<lparr>drum_name = ''Ride'', drum_key = ''h'', drum_color = ''from-blue-500 to-blue-600'',
       drum_note = ''C3''\<rparr>,
      \<lparr>drum_name = ''Tom'', drum_key = ''j'', drum_color = ''from-purple-500 to-purple-600'',
       drum_note = ''E3''\<rparr>]"

datatype synth_class = MembraneSynth | NoiseSynth | MetalSynth

text \<open>
  \<open>synthsRef.current\<close> is an object from drum names to synths; the model keeps the class
  of each synth. It is the empty object before mount and the table below after.
\<close>

definition mounted_synths :: "(string \<times> synth_class) list" where
  "mounted_synths =
     [(''Kick'', MembraneSynth), (''Snare'', NoiseSynth), (''Hi-Hat'', MetalSynth),
      (''Crash'', MetalSynth), (''Ride'', MetalSynth), (''Tom'', MembraneSynth)]"

record drums = panel +
  synthsRef :: "(string \<times> synth_class) list"
  activePads :: "string set"

definition playDrum :: "string \<Rightarrow> string \<Rightarrow> drums \<Rightarrow> drums \<times> effect list" where
  "playDrum drumName n s =
     (case map_of (synthsRef s) drumName of
        None \<Rightarrow> (s, [])
      | Some sy \<Rightarrow>
          (s\<lparr>contextRunning := True,
             activePads := insert drumName (activePads s),
             timeouts := timeouts s @ [drumName]\<rparr>,
           (if contextRunning s then [] else [ToneStart]) @
             [if sy = NoiseSynth then TriggerAttackRelease (DrumSynth drumName) [''8n'']
              else TriggerAttackRelease (DrumSynth drumName) [n, ''8n''],
              OnNotePlay (drumName @ ''-'' @ n)]))"

definition handleKeyDown_Drums :: "string \<Rightarrow> drums \<Rightarrow> drums \<times> effect list" where
  "handleKeyDown_Drums event_key s =
     (case find (\<lambda>d. drum_key d = toLowerCase event_key) drumSounds of
        Some d \<Rightarrow>
          if toLowerCase event_key \<notin> pressedKeys s
          then playDrum (drum_name d) (drum_note d)
                 (s\<lparr>pressedKeys := insert (toLowerCase event_key) (pressedKeys s)\<rparr>)
          else (s, [])
      | None \<Rightarrow> (s, []))"

definition handleKeyUp_Drums :: "string \<Rightarrow> drums \<Rightarrow> drums" where
  "handleKeyUp_Drums event_key s =
     (case find (\<lambda>d. drum_key d = toLowerCase event_key) drumSounds of
        Some d \<Rightarrow>
          s\<lparr>pressedKeys := pressedKeys s - {toLowerCase event_key},
            activePads := activePads s - {drum_name d}\<rparr>
      | None \<Rightarrow> s)"

definition handlePadClick :: "string \<Rightarrow> string \<Rightarrow> drums \<Rightarrow> drums \<times> effect list" where
  "handlePadClick drumName n s = playDrum drumName n s"

definition timeout_Drums :: "drums \<Rightarrow> drums" where
  "timeout_Drums s =
     (case timeouts s of
        [] \<Rightarrow> s
      | p # rest \<Rightarrow> s\<lparr>activePads := activePads s - {p}, timeouts := rest\<rparr>)"

definition isPadActive :: "string \<Rightarrow> drums \<Rightarrow> bool" where
  "isPadActive drumName s =
     (drumName \<in> activePads s \<or>
      (case find (\<lambda>d. drum_name d = drumName) drumSounds of
         Some d \<Rightarrow> drum_key d \<in> pressedKeys s
       | None \<Rightarrow> False))"

text \<open>
  One event of the drums. There is one pad for each entry of \<open>drumSounds\<close>; a mouse
  press names the pad it lands on, and the pad calls \<open>handlePadClick\<close> with the name
  and note of its entry.
\<close>

fun step_Drums :: "event \<Rightarrow> drums \<Rightarrow> drums \<times> effect list" where
  "step_Drums (KeyDown x) s = handleKeyDown_Drums x s"
| "step_Drums (KeyUp x) s = (handleKeyUp_Drums x s, [])"
| "step_Drums (MouseDown p) s =
     (case find (\<lambda>d. drum_name d = p) drumSounds of
        Some d \<Rightarrow> handlePadClick (drum_name d) (drum_note d) s
      | None \<Rightarrow> (s, []))"
| "step_Drums TimeoutFires s = (timeout_Drums s, [])"

fun run_Drums :: "event list \<Rightarrow> drums \<Rightarrow> drums \<times> effect list" where
  "run_Drums [] s = (s, [])"
| "run_Drums (e # es) s =
     (case step_Drums e s of
        (s1, out1) \<Rightarrow> (case run_Drums es s1 of (s2, out2) \<Rightarrow> (s2, out1 @ out2)))"

definition mounted_Drums :: "bool \<Rightarrow> drums" where
  "mounted_Drums running =
     \<lparr>contextRunning = running, pressedKeys = {}, timeouts = [],
      synthsRef = mounted_synths, activePads = {}\<rparr>"

definition key_held_Drums :: "string \<Rightarrow> drums \<Rightarrow> bool" where
  "key_held_Drums p s =
     list_ex (\<lambda>d. drum_name d = p \<and> drum_key d \<in> pressedKeys s) drumSounds"

section \<open>The panel and the controller together\<close>

text \<open>
  The app while the piano is selected. The controller hands its \<open>handleNotePlay\<close> to
  the piano as the prop \<open>onNotePlay\<close>, and the piano reaches it along two paths.
  \<^item> A mouse press runs the \<open>onMouseDown\<close> handler of the current render, and with it the
    \<open>playNote\<close> and the \<open>onNotePlay\<close> of the current render.
  \<^item> A key event runs the window listeners. They are registered in an effect whose
    dependency list is \<open>[pressedKeys]\<close>, so they are the closures of the render in which
    \<open>pressedKeys\<close> last changed, and they call the \<open>playNote\<close> and the \<open>onNotePlay\<close> of
    that render. The field \<open>listener\<close> holds the values of \<open>isRecording\<close> and
    \<open>activeInstrument\<close> in that render.
  A click on Record or Stop renders the controller and the piano anew but leaves
  \<open>pressedKeys\<close> as it is, so the listeners stay the ones they were.
\<close>

record app =
  controller :: session
  pianoPanel :: piano
  listener :: "bool \<times> Instrument"

datatype input =
    ClickRecord int
  | ClickStop
  | PanelEvent event int

text \<open>The calls of \<open>onNotePlay\<close> among the effects of a handler, run on the controller.\<close>

fun notePlays :: "bool \<Rightarrow> Instrument \<Rightarrow> int \<Rightarrow> effect list \<Rightarrow> session \<Rightarrow> session" where
  "notePlays rec inst now [] c = c"
| "notePlays rec inst now (OnNotePlay n # effs) c =
     notePlays rec inst now effs (handleNotePlay rec inst n now c)"
| "notePlays rec inst now (e # effs) c = notePlays rec inst now effs c"

text \<open>
  Whether a handler calls \<open>setPressedKeys\<close>: key-down does for a mapped key that is not
  pressed, key-up for every mapped key. Each call stores a new \<open>Set\<close>, so the effect runs
  again after it.
\<close>

fun sets_pressedKeys :: "event \<Rightarrow> piano \<Rightarrow> bool" where
  "sets_pressedKeys (KeyDown x) p =
     (map_of keyboardMapping (toLowerCase x) \<noteq> None \<and> toLowerCase x \<notin> pressedKeys p)"
| "sets_pressedKeys (KeyUp x) p = (map_of keyboardMapping (toLowerCase x) \<noteq> None)"
| "sets_pressedKeys e p = False"

fun app_step :: "input \<Rightarrow> app \<Rightarrow> app" where
  "app_step (ClickRecord now) a = a\<lparr>controller := handleStartRecording now (controller a)\<rparr>"
| "app_step ClickStop a = a\<lparr>controller := handleStopRecording (controller a)\<rparr>"
| "app_step (PanelEvent e now) a =
     (let held = (case e of
                    MouseDown n \<Rightarrow> (isRecording (controller a), activeInstrument (controller a))
                  | _ \<Rightarrow> listener a);
          c = notePlays (fst held) (snd held) now (snd (step_Piano e (pianoPanel a)))
                (controller a)
      in a\<lparr>controller := c,
           pianoPanel := fst (step_Piano e (pianoPanel a)),
           listener := (if sets_pressedKeys e (pianoPanel a)
                        then (isRecording c, activeInstrument c) else listener a)\<rparr>)"

fun app_run :: "input list \<Rightarrow> app \<Rightarrow> app" where
  "app_run [] a = a"
| "app_run (i # is) a = app_run is (app_step i a)"

text \<open>The app after mount: the listeners are those of the first render.\<close>

definition mounted_app :: "bool \<Rightarrow> app" where
  "mounted_app running =
     \<lparr>controller = initial_session, pianoPanel = mounted_Piano running,
      listener = (isRecording initial_session, activeInstrument initial_session)\<rparr>"

section \<open>The past of a note\<close>

text \<open>
  The conditions under which a note with an open window is shown active speak of what
  happened since the note was last played. They are not in the state of a panel, so a
  run is traced with two sets next to it:
  \<^item> \<open>released\<close>: the notes for which a key mapped to them was released since their
    latest play;
  \<^item> \<open>overlapped\<close>: the notes that were played again while a window of theirs was still
    open, until no window of theirs is open any longer.
  The plays of a handler are the timeouts it has added to the pending ones.
\<close>

record past =
  released :: "string set"
  overlapped :: "string set"

definition no_past :: past where
  "no_past = \<lparr>released = {}, overlapped = {}\<rparr>"

definition played :: "string list \<Rightarrow> string list \<Rightarrow> string list" where
  "played ts ts' = drop (length ts) ts'"

definition track :: "string list \<Rightarrow> string list \<Rightarrow> string list \<Rightarrow> past \<Rightarrow> past" where
  "track rel ts ts' g =
     \<lparr>released = (released g \<union> set rel) - set (played ts ts'),
      overlapped = (overlapped g \<union> (set (played ts ts') \<inter> set ts)) \<inter> set ts'\<rparr>"

fun released_by_Piano :: "event \<Rightarrow> string list" where
  "released_by_Piano (KeyUp x) =
     (case map_of keyboardMapping (toLowerCase x) of Some n \<Rightarrow> [n] | None \<Rightarrow> [])"
| "released_by_Piano e = []"

fun released_by_Drums :: "event \<Rightarrow> string list" where
  "released_by_Drums (KeyUp x) =
     (case find (\<lambda>d. drum_key d = toLowerCase x) drumSounds of
        Some d \<Rightarrow> [drum_name d]
      | None \<Rightarrow> [])"
| "released_by_Drums e = []"

fun trace_Piano :: "event list \<Rightarrow> piano \<Rightarrow> past \<Rightarrow> piano \<times> past" where
  "trace_Piano [] s g = (s, g)"
| "trace_Piano (e # es) s g =
     trace_Piano es (fst (step_Piano e s))
       (track (released_by_Piano e) (timeouts s) (timeouts (fst (step_Piano e s))) g)"

fun trace_Drums :: "event list \<Rightarrow> drums \<Rightarrow> past \<Rightarrow> drums \<times> past" where
  "trace_Drums [] s g = (s, g)"
| "trace_Drums (e # es) s g =
     trace_Drums es (fst (step_Drums e s))
       (track (released_by_Drums e) (timeouts s) (timeouts (fst (step_Drums e s))) g)"

section \<open>Properties of the session controller\<close>

text \<open>
  C4. Whatever the state before (recording or not, any log), \<open>startRecording\<close> leaves
  \<open>isRecording\<close> true, the log empty and the start time equal to the current time; the
  selected instrument is not touched.
\<close>

theorem startRecording_resets:
  "isRecording (handleStartRecording now s) = True \<and>
   recordedNotes (handleStartRecording now s) = [] \<and>
   recordingStartTime (handleStartRecording now s) = now \<and>
   activeInstrument (handleStartRecording now s) = activeInstrument s"
  by (simp add: handleStartRecording_def)

text \<open>
  C8. \<open>stopRecording\<close> sets \<open>isRecording\<close> to false and changes nothing else: the log is
  the same list as before.
\<close>

theorem stopRecording_keeps_log:
  "handleStopRecording s = s\<lparr>isRecording := False\<rparr> \<and>
   isRecording (handleStopRecording s) = False \<and>
   recordedNotes (handleStopRecording s) = recordedNotes s"
  by (simp add: handleStopRecording_def)

text \<open>Facts about runs of actions that hold no start and no stop.\<close>

lemma act_keeps_start:
  "\<not> is_session_boundary a \<Longrightarrow> recordingStartTime (act a s) = recordingStartTime s"
  by (cases a)
     (simp_all add: setActiveInstrument_def handleNotePlay_def
        handleDownloadRecording_def)

lemma act_log_cases:
  "\<not> is_session_boundary a \<Longrightarrow>
   recordedNotes (act a s) = recordedNotes s \<or>
   (\<exists>n now i. note_times [a] = [now] \<and>
      recordedNotes (act a s) =
        recordedNotes s @
          [\<lparr>instrument = i, note' = n, timestamp = now - recordingStartTime s\<rparr>])"
  by (cases a)
     (simp_all add: setActiveInstrument_def handleNotePlay_def
        handleDownloadRecording_def)

lemma note_times_Cons: "note_times (a # as) = note_times [a] @ note_times as"
  by (cases a) simp_all

lemma note_times_tail_subset: "set (note_times as) \<subseteq> set (note_times (a # as))"
  by (cases a) auto

lemma sorted_note_times_tail: "sorted (note_times (a # as)) \<Longrightarrow> sorted (note_times as)"
  by (cases a) auto

lemma acts_sorted:
  "list_all (\<lambda>a. \<not> is_session_boundary a) as \<Longrightarrow>
   sorted (note_times as) \<Longrightarrow>
   sorted (map timestamp (recordedNotes s)) \<Longrightarrow>
   (\<forall>e \<in> set (recordedNotes s). \<forall>t \<in> set (note_times as).
      timestamp e \<le> t - recordingStartTime s) \<Longrightarrow>
   sorted (map timestamp (recordedNotes (acts as s)))"
proof (induction as arbitrary: s)
  case Nil
  then show ?case by simp
next
  case (Cons a as)
  from Cons.prems(1) have nb: "\<not> is_session_boundary a"
    and rest: "list_all (\<lambda>a. \<not> is_session_boundary a) as"
    by simp_all
  have st: "recordingStartTime (act a s) = recordingStartTime s"
    using nb by (rule act_keeps_start)
  have tail: "sorted (note_times as)"
    using Cons.prems(2) by (rule sorted_note_times_tail)
  have old: "\<forall>e \<in> set (recordedNotes s). \<forall>t \<in> set (note_times as).
      timestamp e \<le> t - recordingStartTime s"
    using Cons.prems(4) note_times_tail_subset [of as a] by blast
  from act_log_cases [OF nb, of s]
  have "sorted (map timestamp (recordedNotes (act a s))) \<and>
        (\<forall>e \<in> set (recordedNotes (act a s)). \<forall>t \<in> set (note_times as).
           timestamp e \<le> t - recordingStartTime (act a s))"
  proof
    assume same: "recordedNotes (act a s) = recordedNotes s"
    show ?thesis using same st old Cons.prems(3) by simp
  next
    assume "\<exists>n now i. note_times [a] = [now] \<and>
      recordedNotes (act a s) =
        recordedNotes s @
          [\<lparr>instrument = i, note' = n, timestamp = now - recordingStartTime s\<rparr>]"
    then obtain n now i where "note_times [a] = [now]"
      and log: "recordedNotes (act a s) =
        recordedNotes s @
          [\<lparr>instrument = i, note' = n, timestamp = now - recordingStartTime s\<rparr>]"
      by blast
    then have a: "note_times (a # as) = now # note_times as"
      using note_times_Cons [of a as] by simp
    have before: "\<forall>e \<in> set (recordedNotes s). timestamp e \<le> now - recordingStartTime s"
      using Cons.prems(4) a by simp
    have after: "\<forall>t \<in> set (note_times as). now \<le> t"
      using Cons.prems(2) a by simp
    have "sorted (map timestamp (recordedNotes (act a s)))"
      using log before Cons.prems(3) by (simp add: sorted_append)
    moreover have "\<forall>e \<in> set (recordedNotes (act a s)). \<forall>t \<in> set (note_times as).
           timestamp e \<le> t - recordingStartTime (act a s)"
      using log st old after by auto
    ultimately show ?thesis by simp
  qed
  then show ?case
    using Cons.IH [OF rest tail, of "act a s"] by simp
qed

text \<open>
  A callback follows the values it was made with, not the state it runs in: one made
  while recording still appends after \<open>stopRecording\<close>, and one made before
  \<open>startRecording\<close> appends nothing after it.
\<close>

lemma older_callback:
  "recordedNotes (handleNotePlay True i n now (handleStopRecording s)) =
     recordedNotes s @
       [\<lparr>instrument = i, note' = n, timestamp = now - recordingStartTime s\<rparr>]"
  "handleNotePlay False i n now (handleStartRecording t0 s) = handleStartRecording t0 s"
  by (simp_all add: handleNotePlay_def handleStopRecording_def)

text \<open>
  C1 asks that every call of \<open>onNotePlay\<close> made while \<open>isRecording\<close> is true appends one
  event. The first key press after a click on Record does not: \<open>isRecording\<close> is true,
  key-down of \<open>a\<close> calls \<open>onNotePlay\<close> with \<open>C4\<close>, but the call reaches the callback of
  the render before the click and the log stays empty. The same note played with the
  mouse is logged as \<open>{piano, C4, 100}\<close>.
\<close>

theorem first_key_after_record_not_logged:
  "isRecording (controller (app_run [ClickRecord 1000] (mounted_app True))) \<and>
   snd (step_Piano (KeyDown ''a'')
          (pianoPanel (app_run [ClickRecord 1000] (mounted_app True)))) =
     [TriggerAttackRelease PianoSynth [''C4'', ''8n''], OnNotePlay ''C4''] \<and>
   recordedNotes (controller
     (app_run [ClickRecord 1000, PanelEvent (KeyDown ''a'') 1100] (mounted_app True))) = [] \<and>
   recordedNotes (controller
     (app_run [ClickRecord 1000, PanelEvent (MouseDown ''C4'') 1100] (mounted_app True))) =
     [\<lparr>instrument = piano, note' = ''C4'', timestamp = 100\<rparr>]"
  by (simp add: mounted_app_def initial_session_def mounted_Piano_def handleStartRecording_def
      handleNotePlay_def handleKeyDown_Piano_def handleKeyPress_def playNote_def
      keyboardMapping_def whiteKeys_def toLowerCase_def lower_char_def capitals_def)

text \<open>
  C5 asks that every call of \<open>onNotePlay\<close> made while \<open>isRecording\<close> is false leaves the
  log as it is. The first key press after a click on Stop does not: \<open>isRecording\<close> is
  false and the log holds one event, yet key-down of \<open>d\<close> reaches the callback made
  while recording and a second event, \<open>{piano, E4, 500}\<close>, is appended.
\<close>

theorem first_key_after_stop_logged:
  "\<not> isRecording (controller
       (app_run [ClickRecord 1000, PanelEvent (KeyDown ''a'') 1100,
                 PanelEvent (KeyUp ''a'') 1200, PanelEvent (KeyDown ''s'') 1300,
                 PanelEvent (KeyUp ''s'') 1400, ClickStop] (mounted_app True))) \<and>
   recordedNotes (controller
       (app_run [ClickRecord 1000, PanelEvent (KeyDown ''a'') 1100,
                 PanelEvent (KeyUp ''a'') 1200, PanelEvent (KeyDown ''s'') 1300,
                 PanelEvent (KeyUp ''s'') 1400, ClickStop] (mounted_app True))) =
     [\<lparr>instrument = piano, note' = ''D4'', timestamp = 300\<rparr>] \<and>
   recordedNotes (controller
       (app_run [ClickRecord 1000, PanelEvent (KeyDown ''a'') 1100,
                 PanelEvent (KeyUp ''a'') 1200, PanelEvent (KeyDown ''s'') 1300,
                 PanelEvent (KeyUp ''s'') 1400, ClickStop,
                 PanelEvent (KeyDown ''d'') 1500] (mounted_app True))) =
     [\<lparr>instrument = piano, note' = ''D4'', timestamp = 300\<rparr>,
      \<lparr>instrument = piano, note' = ''E4'', timestamp = 500\<rparr>]"
  by (simp add: mounted_app_def initial_session_def mounted_Piano_def handleStartRecording_def
      handleStopRecording_def handleNotePlay_def handleKeyDown_Piano_def handleKeyUp_Piano_def
      playNote_def keyboardMapping_def toLowerCase_def lower_char_def capitals_def)

text \<open>
  C7 as it is written fails: the timestamps are differences of \<open>Date.now()\<close>, the wall
  clock, and nothing in the code orders them. When the clock steps back between two
  calls (readings 1500, then 1400) the log holds the timestamps 500, 400.
\<close>

theorem timestamps_counterexample:
  "list_all (\<lambda>a. \<not> is_session_boundary a)
     [NotePlay True piano ''C4'' 1500, NotePlay True piano ''D4'' 1400] \<and>
   map timestamp (recordedNotes
     (acts [NotePlay True piano ''C4'' 1500, NotePlay True piano ''D4'' 1400]
        (handleStartRecording 1000 initial_session))) = [500, 400] \<and>
   \<not> sorted (map timestamp (recordedNotes
     (acts [NotePlay True piano ''C4'' 1500, NotePlay True piano ''D4'' 1400]
        (handleStartRecording 1000 initial_session))))"
  by (simp add: handleStartRecording_def handleNotePlay_def initial_session_def)

text \<open>
  C7, amended. After \<open>startRecording\<close>, let any run of actions follow that holds no
  further start and no stop: calls of \<open>onNotePlay\<close>, with instrument selections and
  downloads between them. If the readings of \<open>Date.now()\<close> in the calls do not decrease
  along the run, the timestamps of the log do not decrease in log order.
\<close>

theorem timestamps_nondecreasing:
  assumes "list_all (\<lambda>a. \<not> is_session_boundary a) as"
    and "sorted (note_times as)"
  shows "sorted (map timestamp (recordedNotes (acts as (handleStartRecording t0 s))))"
proof -
  have "recordedNotes (handleStartRecording t0 s) = []"
    by (simp add: handleStartRecording_def)
  then show ?thesis
    using acts_sorted [OF assms, of "handleStartRecording t0 s"] by simp
qed

theorem timestamps_nondecreasing_witness:
  "list_all (\<lambda>a. \<not> is_session_boundary a)
     [NotePlay True piano ''C4'' 1100, NotePlay False piano ''D4'' 1180,
      SelectInstrument drums, NotePlay True drums ''Kick-C2'' 1250] \<and>
   sorted (note_times
     [NotePlay True piano ''C4'' 1100, NotePlay False piano ''D4'' 1180,
      SelectInstrument drums, NotePlay True drums ''Kick-C2'' 1250]) \<and>
   sorted (map timestamp (recordedNotes
     (acts [NotePlay True piano ''C4'' 1100, NotePlay False piano ''D4'' 1180,
            SelectInstrument drums, NotePlay True drums ''Kick-C2'' 1250]
        (handleStartRecording 1000 initial_session)))) \<and>
   map timestamp (recordedNotes
     (acts [NotePlay True piano ''C4'' 1100, NotePlay False piano ''D4'' 1180,
            SelectInstrument drums, NotePlay True drums ''Kick-C2'' 1250]
        (handleStartRecording 1000 initial_session))) = [100, 250]"
  using timestamps_nondecreasing
    [of "[NotePlay True piano ''C4'' 1100, NotePlay False piano ''D4'' 1180,
          SelectInstrument drums, NotePlay True drums ''Kick-C2'' 1250]"
        1000 initial_session]
  by (simp add: handleStartRecording_def handleNotePlay_def
      setActiveInstrument_def initial_session_def)

text \<open>
  C3. With a log of length \<open>L > 0\<close> the export offers a file whose \<open>notes\<close> is the log
  itself, of length \<open>L\<close>, and whose \<open>duration\<close> is the timestamp of the last event. With
  the empty log it offers nothing; the handler has no failing branch.
\<close>

theorem export_document:
  "(recordedNotes s \<noteq> [] \<longrightarrow>
      (\<exists>d. snd (handleDownloadRecording isoDate now s) = Some d \<and>
           notes' (content d) = recordedNotes s \<and>
           length (notes' (content d)) = length (recordedNotes s) \<and>
           duration (content d) = timestamp (last (recordedNotes s)))) \<and>
   (recordedNotes s = [] \<longrightarrow> snd (handleDownloadRecording isoDate now s) = None)"
  by (simp add: handleDownloadRecording_def or_zero_def last_conv_nth)

theorem export_document_witness:
  "recordedNotes
     \<lparr>activeInstrument = piano, isRecording = False,
      recordedNotes = [\<lparr>instrument = piano, note' = ''C4'', timestamp = 0\<rparr>,
                       \<lparr>instrument = piano, note' = ''D4'', timestamp = 340\<rparr>],
      recordingStartTime = 1000\<rparr> \<noteq> [] \<and>
   (\<exists>d. snd (handleDownloadRecording ''2024-01-01T00:00:00.000Z'' 2000
             \<lparr>activeInstrument = piano, isRecording = False,
              recordedNotes = [\<lparr>instrument = piano, note' = ''C4'', timestamp = 0\<rparr>,
                               \<lparr>instrument = piano, note' = ''D4'', timestamp = 340\<rparr>],
              recordingStartTime = 1000\<rparr>) = Some d \<and>
        length (notes' (content d)) = 2 \<and> duration (content d) = 340) \<and>
   recordedNotes initial_session = [] \<and>
   snd (handleDownloadRecording ''2024-01-01T00:00:00.000Z'' 2000 initial_session) = None"
  using export_document
    [of "\<lparr>activeInstrument = piano, isRecording = False,
          recordedNotes = [\<lparr>instrument = piano, note' = ''C4'', timestamp = 0\<rparr>,
                           \<lparr>instrument = piano, note' = ''D4'', timestamp = 340\<rparr>],
          recordingStartTime = 1000\<rparr>" "''2024-01-01T00:00:00.000Z''" 2000]
    export_document [of initial_session "''2024-01-01T00:00:00.000Z''" 2000]
  by (auto simp add: initial_session_def)

text \<open>
  C10. The export returns the session state it was given: log, \<open>isRecording\<close>, selected
  instrument and start time are the same after it, so a second export offers the same
  document content as it would have before the first.
\<close>

theorem export_leaves_state:
  "fst (handleDownloadRecording isoDate now s) = s \<and>
   recordedNotes (fst (handleDownloadRecording isoDate now s)) = recordedNotes s \<and>
   isRecording (fst (handleDownloadRecording isoDate now s)) = isRecording s \<and>
   activeInstrument (fst (handleDownloadRecording isoDate now s)) = activeInstrument s \<and>
   recordingStartTime (fst (handleDownloadRecording isoDate now s)) = recordingStartTime s \<and>
   snd (handleDownloadRecording isoDate' now' (fst (handleDownloadRecording isoDate now s))) =
     snd (handleDownloadRecording isoDate' now' s)"
  by (simp add: handleDownloadRecording_def)

section \<open>Properties of the instrument panels\<close>

text \<open>The tables: the first key found for a note is the one key mapped to it.\<close>

lemma snd_unique:
  assumes "distinct (map snd xs)" and "(k, n) \<in> set xs" and "(k', n) \<in> set xs"
  shows "k' = k"
proof -
  have "inj_on snd (set xs)"
    using assms(1) by (simp add: distinct_map)
  from inj_onD [OF this, of "(k', n)" "(k, n)"] show ?thesis
    using assms(2,3) by simp
qed

lemma find_first_key:
  assumes "distinct (map fst xs)" and "distinct (map snd xs)" and "(k, n) \<in> set xs"
  shows "find (\<lambda>k'. map_of xs k' = Some n) (map fst xs) = Some k"
proof -
  have kn: "map_of xs k = Some n"
    using assms(1,3) by (rule map_of_is_SomeI)
  have "k \<in> set (map fst xs)"
    using assms(3) by force
  then have "find (\<lambda>k'. map_of xs k' = Some n) (map fst xs) \<noteq> None"
    using kn by (auto simp add: find_None_iff)
  then obtain k' where f: "find (\<lambda>k'. map_of xs k' = Some n) (map fst xs) = Some k'"
    by blast
  then have "map_of xs k' = Some n"
    by (auto simp add: find_Some_iff)
  then have "(k', n) \<in> set xs"
    by (rule map_of_SomeD)
  with assms(2,3) have "k' = k"
    by (rule snd_unique)
  with f show ?thesis by simp
qed

lemma keyboardMapping_distinct:
  "distinct (map fst keyboardMapping)" "distinct (map snd keyboardMapping)"
  by (simp_all add: keyboardMapping_def)

lemma isKeyActive_iff:
  "isKeyActive n s \<longleftrightarrow> n \<in> activeKeys s \<or> key_held_Piano n s"
proof (cases "n \<in> set (map snd keyboardMapping)")
  case True
  then obtain k where kn: "(k, n) \<in> set keyboardMapping"
    by auto
  have f: "find (\<lambda>k'. map_of keyboardMapping k' = Some n) (map fst keyboardMapping) = Some k"
    using keyboardMapping_distinct kn by (rule find_first_key)
  have uniq: "\<And>k'. (k', n) \<in> set keyboardMapping \<Longrightarrow> k' = k"
    using keyboardMapping_distinct(2) kn by (rule snd_unique)
  have "key_held_Piano n s \<longleftrightarrow> k \<in> pressedKeys s"
    unfolding key_held_Piano_def list_ex_iff using kn by (auto dest: uniq)
  then show ?thesis
    using True f by (simp add: isKeyActive_def)
next
  case False
  then have "\<not> key_held_Piano n s"
    unfolding key_held_Piano_def list_ex_iff by force
  then show ?thesis
    using False by (simp add: isKeyActive_def)
qed

lemma find_by_name:
  assumes "distinct (map f xs)" and "x \<in> set xs"
  shows "find (\<lambda>y. f y = f x) xs = Some x"
  using assms by (induction xs) force+

lemma drumSounds_distinct: "distinct (map drum_name drumSounds)"
  by (simp add: drumSounds_def)

lemma isPadActive_iff:
  "isPadActive p s \<longleftrightarrow> p \<in> activePads s \<or> key_held_Drums p s"
proof (cases "\<exists>d \<in> set drumSounds. drum_name d = p")
  case True
  then obtain d where d: "d \<in> set drumSounds" and p: "p = drum_name d"
    by auto
  have f: "find (\<lambda>y. drum_name y = p) drumSounds = Some d"
    unfolding p using drumSounds_distinct d by (rule find_by_name)
  have "inj_on drum_name (set drumSounds)"
    using drumSounds_distinct by (simp add: distinct_map)
  then have uniq: "\<And>d'. d' \<in> set drumSounds \<Longrightarrow> drum_name d' = p \<Longrightarrow> d' = d"
    using d p by (auto dest: inj_onD)
  have "key_held_Drums p s \<longleftrightarrow> drum_key d \<in> pressedKeys s"
    unfolding key_held_Drums_def list_ex_iff using d p by (auto dest: uniq)
  then show ?thesis
    using f by (simp add: isPadActive_def)
next
  case False
  then have "find (\<lambda>y. drum_name y = p) drumSounds = None"
    by (auto simp add: find_None_iff)
  moreover have "\<not> key_held_Drums p s"
    unfolding key_held_Drums_def list_ex_iff using False by auto
  ultimately show ?thesis
    by (simp add: isPadActive_def)
qed


text \<open>Key-down on a key that is recorded as pressed, and what keeps a key pressed.\<close>

lemma keydown_Piano_pressed:
  "toLowerCase x \<in> pressedKeys s \<Longrightarrow> handleKeyDown_Piano x s = (s, [])"
  by (simp add: handleKeyDown_Piano_def split: option.splits)

lemma step_Piano_keeps_pressed:
  "k \<in> pressedKeys s \<Longrightarrow> \<not> is_keyup_of k e \<Longrightarrow> k \<in> pressedKeys (fst (step_Piano e s))"
  by (cases e)
     (auto simp add: handleKeyDown_Piano_def handleKeyUp_Piano_def handleKeyPress_def
        playNote_def timeout_Piano_def split: option.splits list.splits)

lemma run_Piano_skip:
  "k \<in> pressedKeys s \<Longrightarrow> \<not> list_ex (is_keyup_of k) es \<Longrightarrow>
   run_Piano (filter (\<lambda>e. \<not> is_keydown_of k e) es) s = run_Piano es s"
proof (induction es arbitrary: s)
  case Nil
  then show ?case by simp
next
  case (Cons e es)
  from Cons.prems(2) have up: "\<not> is_keyup_of k e" and rest: "\<not> list_ex (is_keyup_of k) es"
    by simp_all
  show ?case
  proof (cases "is_keydown_of k e")
    case True
    then obtain x where e: "e = KeyDown x" and x: "toLowerCase x = k"
      by (cases e) auto
    have "step_Piano e s = (s, [])"
      using e x Cons.prems(1) by (simp add: keydown_Piano_pressed)
    then show ?thesis
      using True Cons.IH [OF Cons.prems(1) rest] by simp
  next
    case False
    have "k \<in> pressedKeys (fst (step_Piano e s))"
      using Cons.prems(1) up by (rule step_Piano_keeps_pressed)
    then show ?thesis
      using False Cons.IH [OF _ rest, of "fst (step_Piano e s)"]
      by (auto split: prod.splits)
  qed
qed

lemma keydown_Piano_first:
  "map_of keyboardMapping (toLowerCase x) = Some n \<Longrightarrow> toLowerCase x \<notin> pressedKeys s \<Longrightarrow>
   synthRef s \<Longrightarrow>
   handleKeyDown_Piano x s =
     (s\<lparr>contextRunning := True,
        pressedKeys := insert (toLowerCase x) (pressedKeys s),
        timeouts := timeouts s @ [n],
        activeKeys := insert n (activeKeys s)\<rparr>,
      (if contextRunning s then [] else [ToneStart]) @
        [TriggerAttackRelease PianoSynth [n, ''8n''], OnNotePlay n])"
  by (simp add: handleKeyDown_Piano_def playNote_def)

lemma keydown_Drums_pressed:
  "toLowerCase x \<in> pressedKeys s \<Longrightarrow> handleKeyDown_Drums x s = (s, [])"
  by (simp add: handleKeyDown_Drums_def split: option.splits)

lemma step_Drums_keeps_pressed:
  "k \<in> pressedKeys s \<Longrightarrow> \<not> is_keyup_of k e \<Longrightarrow> k \<in> pressedKeys (fst (step_Drums e s))"
  by (cases e)
     (auto simp add: handleKeyDown_Drums_def handleKeyUp_Drums_def handlePadClick_def
        playDrum_def timeout_Drums_def split: option.splits list.splits)

lemma run_Drums_skip:
  "k \<in> pressedKeys s \<Longrightarrow> \<not> list_ex (is_keyup_of k) es \<Longrightarrow>
   run_Drums (filter (\<lambda>e. \<not> is_keydown_of k e) es) s = run_Drums es s"
proof (induction es arbitrary: s)
  case Nil
  then show ?case by simp
next
  case (Cons e es)
  from Cons.prems(2) have up: "\<not> is_keyup_of k e" and rest: "\<not> list_ex (is_keyup_of k) es"
    by simp_all
  show ?case
  proof (cases "is_keydown_of k e")
    case True
    then obtain x where e: "e = KeyDown x" and x: "toLowerCase x = k"
      by (cases e) auto
    have "step_Drums e s = (s, [])"
      using e x Cons.prems(1) by (simp add: keydown_Drums_pressed)
    then show ?thesis
      using True Cons.IH [OF Cons.prems(1) rest] by simp
  next
    case False
    have "k \<in> pressedKeys (fst (step_Drums e s))"
      using Cons.prems(1) up by (rule step_Drums_keeps_pressed)
    then show ?thesis
      using False Cons.IH [OF _ rest, of "fst (step_Drums e s)"]
      by (auto split: prod.splits)
  qed
qed

lemma keydown_Drums_first:
  "find (\<lambda>d. drum_key d = toLowerCase x) drumSounds = Some d \<Longrightarrow>
   toLowerCase x \<notin> pressedKeys s \<Longrightarrow>
   map_of (synthsRef s) (drum_name d) = Some sy \<Longrightarrow>
   handleKeyDown_Drums x s =
     (s\<lparr>contextRunning := True,
        pressedKeys := insert (toLowerCase x) (pressedKeys s),
        timeouts := timeouts s @ [drum_name d],
        activePads := insert (drum_name d) (activePads s)\<rparr>,
      (if contextRunning s then [] else [ToneStart]) @
        [if sy = NoiseSynth then TriggerAttackRelease (DrumSynth (drum_name d)) [''8n'']
         else TriggerAttackRelease (DrumSynth (drum_name d)) [drum_note d, ''8n''],
         OnNotePlay (drum_name d @ ''-'' @ drum_note d)])"
  by (simp add: handleKeyDown_Drums_def playDrum_def)

text \<open>
  Every note in the active set has a pending timeout: a play adds both, and a timeout
  callback removes its note when it runs.
\<close>

lemma step_Piano_active:
  "activeKeys s \<subseteq> set (timeouts s) \<Longrightarrow>
   activeKeys (fst (step_Piano e s)) \<subseteq> set (timeouts (fst (step_Piano e s)))"
  by (cases e)
     (auto simp add: handleKeyDown_Piano_def handleKeyUp_Piano_def handleKeyPress_def
        playNote_def timeout_Piano_def split: option.splits list.splits)

lemma run_Piano_active:
  "activeKeys s \<subseteq> set (timeouts s) \<Longrightarrow>
   activeKeys (fst (run_Piano es s)) \<subseteq> set (timeouts (fst (run_Piano es s)))"
proof (induction es arbitrary: s)
  case Nil
  then show ?case by simp
next
  case (Cons e es)
  have "activeKeys (fst (step_Piano e s)) \<subseteq> set (timeouts (fst (step_Piano e s)))"
    using Cons.prems by (rule step_Piano_active)
  then show ?case
    using Cons.IH [of "fst (step_Piano e s)"] by (auto split: prod.splits)
qed

lemma step_Drums_active:
  "activePads s \<subseteq> set (timeouts s) \<Longrightarrow>
   activePads (fst (step_Drums e s)) \<subseteq> set (timeouts (fst (step_Drums e s)))"
  by (cases e)
     (auto simp add: handleKeyDown_Drums_def handleKeyUp_Drums_def handlePadClick_def
        playDrum_def timeout_Drums_def split: option.splits list.splits)

lemma run_Drums_active:
  "activePads s \<subseteq> set (timeouts s) \<Longrightarrow>
   activePads (fst (run_Drums es s)) \<subseteq> set (timeouts (fst (run_Drums es s)))"
proof (induction es arbitrary: s)
  case Nil
  then show ?case by simp
next
  case (Cons e es)
  have "activePads (fst (step_Drums e s)) \<subseteq> set (timeouts (fst (step_Drums e s)))"
    using Cons.prems by (rule step_Drums_active)
  then show ?case
    using Cons.IH [of "fst (step_Drums e s)"] by (auto split: prod.splits)
qed


text \<open>
  C2. Take a mapped key that is not recorded as pressed, on a mounted panel, and a
  key-down of it followed by any events that hold no key-up of that key. The first
  key-down triggers the synth, calls \<open>onNotePlay\<close> and puts the note (or pad) into the
  active set. Every later key-down of the key in the sequence has no effect: the run
  ends in the same state and makes the same calls as the run with those key-downs left
  out. This holds for the piano and for the drums.
\<close>

theorem key_repeat_suppressed:
  assumes "map_of keyboardMapping (toLowerCase x) = Some n"
    and "toLowerCase x \<notin> pressedKeys p"
    and "synthRef p"
    and "\<not> list_ex (is_keyup_of (toLowerCase x)) es"
    and "find (\<lambda>d. drum_key d = toLowerCase y) drumSounds = Some d"
    and "toLowerCase y \<notin> pressedKeys q"
    and "map_of (synthsRef q) (drum_name d) = Some sy"
    and "\<not> list_ex (is_keyup_of (toLowerCase y)) ds"
  shows
    "(snd (handleKeyDown_Piano x p) =
        (if contextRunning p then [] else [ToneStart]) @
          [TriggerAttackRelease PianoSynth [n, ''8n''], OnNotePlay n] \<and>
      n \<in> activeKeys (fst (handleKeyDown_Piano x p)) \<and>
      run_Piano (KeyDown x # es) p =
        run_Piano (KeyDown x # filter (\<lambda>e. \<not> is_keydown_of (toLowerCase x) e) es) p) \<and>
     (snd (handleKeyDown_Drums y q) =
        (if contextRunning q then [] else [ToneStart]) @
          [if sy = NoiseSynth then TriggerAttackRelease (DrumSynth (drum_name d)) [''8n'']
           else TriggerAttackRelease (DrumSynth (drum_name d)) [drum_note d, ''8n''],
           OnNotePlay (drum_name d @ ''-'' @ drum_note d)] \<and>
      drum_name d \<in> activePads (fst (handleKeyDown_Drums y q)) \<and>
      run_Drums (KeyDown y # ds) q =
        run_Drums (KeyDown y # filter (\<lambda>e. \<not> is_keydown_of (toLowerCase y) e) ds) q)"
proof -
  note first_p = keydown_Piano_first [OF assms(1,2,3)]
  have held_p: "toLowerCase x \<in> pressedKeys (fst (handleKeyDown_Piano x p))"
    by (simp add: first_p)
  have skip_p: "run_Piano (filter (\<lambda>e. \<not> is_keydown_of (toLowerCase x) e) es)
        (fst (handleKeyDown_Piano x p)) = run_Piano es (fst (handleKeyDown_Piano x p))"
    using held_p assms(4) by (rule run_Piano_skip)
  have piano: "run_Piano (KeyDown x # es) p =
      run_Piano (KeyDown x # filter (\<lambda>e. \<not> is_keydown_of (toLowerCase x) e) es) p"
    using skip_p by (auto split: prod.splits)
  note first_q = keydown_Drums_first [OF assms(5,6,7)]
  have held_q: "toLowerCase y \<in> pressedKeys (fst (handleKeyDown_Drums y q))"
    by (simp add: first_q)
  have skip_q: "run_Drums (filter (\<lambda>e. \<not> is_keydown_of (toLowerCase y) e) ds)
        (fst (handleKeyDown_Drums y q)) = run_Drums ds (fst (handleKeyDown_Drums y q))"
    using held_q assms(8) by (rule run_Drums_skip)
  have drums: "run_Drums (KeyDown y # ds) q =
      run_Drums (KeyDown y # filter (\<lambda>e. \<not> is_keydown_of (toLowerCase y) e) ds) q"
    using skip_q by (auto split: prod.splits)
  show ?thesis
    using piano drums by (simp add: first_p first_q)
qed

theorem key_repeat_suppressed_witness:
  "snd (run_Piano [KeyDown ''a'', KeyDown ''a'', MouseDown ''D4'', KeyDown ''A'', TimeoutFires]
          (mounted_Piano True)) =
     snd (run_Piano [KeyDown ''a'', MouseDown ''D4'', TimeoutFires] (mounted_Piano True)) \<and>
   snd (handleKeyDown_Piano ''a'' (mounted_Piano True)) =
     [TriggerAttackRelease PianoSynth [''C4'', ''8n''], OnNotePlay ''C4''] \<and>
   snd (run_Drums [KeyDown ''s'', KeyDown ''S'', KeyUp ''d'', KeyDown ''s''] (mounted_Drums True)) =
     snd (run_Drums [KeyDown ''s'', KeyUp ''d''] (mounted_Drums True)) \<and>
   snd (handleKeyDown_Drums ''s'' (mounted_Drums True)) =
     [TriggerAttackRelease (DrumSynth ''Kick'') [''C2'', ''8n''], OnNotePlay ''Kick-C2'']"
proof -
  have low: "toLowerCase ''a'' = ''a''" "toLowerCase ''A'' = ''a''"
    "toLowerCase ''s'' = ''s''" "toLowerCase ''S'' = ''s''" "toLowerCase ''d'' = ''d''"
    by (simp_all add: toLowerCase_def lower_char_def capitals_def)
  have h1: "map_of keyboardMapping (toLowerCase ''a'') = Some ''C4''"
    by (simp add: low keyboardMapping_def)
  have h2: "toLowerCase ''a'' \<notin> pressedKeys (mounted_Piano True)"
    by (simp add: mounted_Piano_def)
  have h3: "synthRef (mounted_Piano True)"
    by (simp add: mounted_Piano_def)
  have h4: "\<not> list_ex (is_keyup_of (toLowerCase ''a''))
      [KeyDown ''a'', MouseDown ''D4'', KeyDown ''A'', TimeoutFires]"
    by simp
  have h5: "find (\<lambda>d. drum_key d = toLowerCase ''s'') drumSounds =
      Some \<lparr>drum_name = ''Kick'', drum_key = ''s'', drum_color = ''from-red-500 to-red-600'',
            drum_note = ''C2''\<rparr>"
    by (simp add: low drumSounds_def)
  have h6: "toLowerCase ''s'' \<notin> pressedKeys (mounted_Drums True)"
    by (simp add: mounted_Drums_def)
  have h7: "map_of (synthsRef (mounted_Drums True))
      (drum_name \<lparr>drum_name = ''Kick'', drum_key = ''s'',
         drum_color = ''from-red-500 to-red-600'', drum_note = ''C2''\<rparr>) = Some MembraneSynth"
    by (simp add: mounted_Drums_def mounted_synths_def)
  have h8: "\<not> list_ex (is_keyup_of (toLowerCase ''s'')) [KeyDown ''S'', KeyUp ''d'', KeyDown ''s'']"
    by (simp add: low)
  have c: "contextRunning (mounted_Piano True)" "contextRunning (mounted_Drums True)"
    by (simp_all add: mounted_Piano_def mounted_Drums_def)
  show ?thesis
    using key_repeat_suppressed [OF h1 h2 h3 h4 h5 h6 h7 h8] c
    by (simp add: low)
qed

text \<open>
  C9. On the mounted drums, with \<open>s\<close> not recorded as pressed, a key-down of \<open>s\<close>
  triggers the synth stored under \<open>Kick\<close> (after \<open>Tone.start()\<close> when the context is
  not running) and calls \<open>onNotePlay\<close> once, with the string \<open>Kick-C2\<close>.
\<close>

theorem kick_key_down:
  "synthsRef q = mounted_synths \<Longrightarrow> ''s'' \<notin> pressedKeys q \<Longrightarrow>
   handleKeyDown_Drums ''s'' q =
     (q\<lparr>contextRunning := True,
        pressedKeys := insert ''s'' (pressedKeys q),
        timeouts := timeouts q @ [''Kick''],
        activePads := insert ''Kick'' (activePads q)\<rparr>,
      (if contextRunning q then [] else [ToneStart]) @
        [TriggerAttackRelease (DrumSynth ''Kick'') [''C2'', ''8n''], OnNotePlay ''Kick-C2''])"
  by (simp add: handleKeyDown_Drums_def playDrum_def drumSounds_def mounted_synths_def
      toLowerCase_def lower_char_def capitals_def)

theorem kick_key_down_witness:
  "synthsRef (mounted_Drums False) = mounted_synths \<and>
   ''s'' \<notin> pressedKeys (mounted_Drums False) \<and>
   snd (handleKeyDown_Drums ''s'' (mounted_Drums False)) =
     [ToneStart, TriggerAttackRelease (DrumSynth ''Kick'') [''C2'', ''8n''],
      OnNotePlay ''Kick-C2'']"
proof -
  have a: "synthsRef (mounted_Drums False) = mounted_synths"
    by (simp add: mounted_Drums_def)
  have b: "''s'' \<notin> pressedKeys (mounted_Drums False)"
    by (simp add: mounted_Drums_def)
  have c: "\<not> contextRunning (mounted_Drums False)"
    by (simp add: mounted_Drums_def)
  show ?thesis
    using a b c kick_key_down [OF a b] by simp
qed

text \<open>
  C6 as it is written fails. Press \<open>a\<close> on the mounted piano and release it before the
  timeout of the play has run: the window of \<open>C4\<close> is still open, but key-up has removed
  \<open>C4\<close> from \<open>activeKeys\<close> and no key is held, so \<open>isKeyActive\<close> is false.
\<close>

theorem visual_active_counterexample:
  "window_open ''C4'' (fst (run_Piano [KeyDown ''a'', KeyUp ''a''] (mounted_Piano True))) \<and>
   \<not> isKeyActive ''C4'' (fst (run_Piano [KeyDown ''a'', KeyUp ''a''] (mounted_Piano True))) \<and>
   \<not> (isKeyActive ''C4'' (fst (run_Piano [KeyDown ''a'', KeyUp ''a''] (mounted_Piano True))) \<longleftrightarrow>
      window_open ''C4'' (fst (run_Piano [KeyDown ''a'', KeyUp ''a''] (mounted_Piano True))) \<or>
      key_held_Piano ''C4'' (fst (run_Piano [KeyDown ''a'', KeyUp ''a''] (mounted_Piano True))))"
  by (simp add: window_open_def isKeyActive_def mounted_Piano_def handleKeyDown_Piano_def
      handleKeyUp_Piano_def playNote_def keyboardMapping_def toLowerCase_def lower_char_def
      capitals_def)

text \<open>
  What one event does to the pending timeouts and the active set, and what follows for a
  note that has not been played again inside an open window of its own.
\<close>

lemma track_step:
  assumes sub: "A \<subseteq> set ts"
    and inv: "n \<notin> overlapped g \<longrightarrow>
      count_list ts n \<le> 1 \<and> (n \<in> A \<longleftrightarrow> n \<in> set ts \<and> n \<notin> released g)"
    and shape:
      "(ts' = ts \<and> A' = A \<and> rel = []) \<or>
       (\<exists>m. ts' = ts @ [m] \<and> A' = insert m A \<and> rel = []) \<or>
       (\<exists>m. ts' = ts \<and> A' = A - {m} \<and> rel = [m]) \<or>
       (\<exists>m. ts = m # ts' \<and> A' = A - {m} \<and> rel = [])"
  shows "A' \<subseteq> set ts' \<and>
    (n \<notin> overlapped (track rel ts ts' g) \<longrightarrow>
       count_list ts' n \<le> 1 \<and>
       (n \<in> A' \<longleftrightarrow> n \<in> set ts' \<and> n \<notin> released (track rel ts ts' g)))"
proof -
  consider
      (same) "ts' = ts" "A' = A" "rel = []"
    | (play) m where "ts' = ts @ [m]" "A' = insert m A" "rel = []"
    | (up) m where "ts' = ts" "A' = A - {m}" "rel = [m]"
    | (fire) m where "ts = m # ts'" "A' = A - {m}" "rel = []"
    using shape by blast
  then show ?thesis
  proof cases
    case same
    then show ?thesis
      using sub inv by (auto simp add: track_def played_def)
  next
    case play
    have "n \<notin> set ts \<Longrightarrow> count_list ts n = 0"
      by (simp add: count_list_0_iff)
    then show ?thesis
      using play sub inv by (auto simp add: track_def played_def)
  next
    case up
    then show ?thesis
      using sub inv by (auto simp add: track_def played_def)
  next
    case fire
    have "count_list ts' n = 0 \<Longrightarrow> n \<notin> set ts'"
      by (simp add: count_list_0_iff)
    then show ?thesis
      using fire sub inv by (auto simp add: track_def played_def split: if_splits)
  qed
qed

lemma step_Piano_shape:
  "(timeouts (fst (step_Piano e s)) = timeouts s \<and>
      activeKeys (fst (step_Piano e s)) = activeKeys s \<and> released_by_Piano e = []) \<or>
   (\<exists>m. timeouts (fst (step_Piano e s)) = timeouts s @ [m] \<and>
      activeKeys (fst (step_Piano e s)) = insert m (activeKeys s) \<and> released_by_Piano e = []) \<or>
   (\<exists>m. timeouts (fst (step_Piano e s)) = timeouts s \<and>
      activeKeys (fst (step_Piano e s)) = activeKeys s - {m} \<and> released_by_Piano e = [m]) \<or>
   (\<exists>m. timeouts s = m # timeouts (fst (step_Piano e s)) \<and>
      activeKeys (fst (step_Piano e s)) = activeKeys s - {m} \<and> released_by_Piano e = [])"
  by (cases e)
     (auto simp add: handleKeyDown_Piano_def handleKeyUp_Piano_def handleKeyPress_def
        playNote_def timeout_Piano_def split: option.splits list.splits)

lemma step_Drums_shape:
  "(timeouts (fst (step_Drums e s)) = timeouts s \<and>
      activePads (fst (step_Drums e s)) = activePads s \<and> released_by_Drums e = []) \<or>
   (\<exists>m. timeouts (fst (step_Drums e s)) = timeouts s @ [m] \<and>
      activePads (fst (step_Drums e s)) = insert m (activePads s) \<and> released_by_Drums e = []) \<or>
   (\<exists>m. timeouts (fst (step_Drums e s)) = timeouts s \<and>
      activePads (fst (step_Drums e s)) = activePads s - {m} \<and> released_by_Drums e = [m]) \<or>
   (\<exists>m. timeouts s = m # timeouts (fst (step_Drums e s)) \<and>
      activePads (fst (step_Drums e s)) = activePads s - {m} \<and> released_by_Drums e = [])"
  by (cases e)
     (auto simp add: handleKeyDown_Drums_def handleKeyUp_Drums_def handlePadClick_def
        playDrum_def timeout_Drums_def split: option.splits list.splits)

lemma trace_Piano_fst: "fst (trace_Piano es s g) = fst (run_Piano es s)"
  by (induction es arbitrary: s g) (auto split: prod.splits)

lemma trace_Drums_fst: "fst (trace_Drums es s g) = fst (run_Drums es s)"
  by (induction es arbitrary: s g) (auto split: prod.splits)

lemma trace_Piano_inv:
  "activeKeys s \<subseteq> set (timeouts s) \<Longrightarrow>
   (n \<notin> overlapped g \<longrightarrow>
      count_list (timeouts s) n \<le> 1 \<and>
      (n \<in> activeKeys s \<longleftrightarrow> n \<in> set (timeouts s) \<and> n \<notin> released g)) \<Longrightarrow>
   n \<notin> overlapped (snd (trace_Piano es s g)) \<longrightarrow>
     (n \<in> activeKeys (fst (trace_Piano es s g)) \<longleftrightarrow>
        n \<in> set (timeouts (fst (trace_Piano es s g))) \<and>
        n \<notin> released (snd (trace_Piano es s g)))"
proof (induction es arbitrary: s g)
  case Nil
  then show ?case by simp
next
  case (Cons e es)
  have "activeKeys (fst (step_Piano e s)) \<subseteq> set (timeouts (fst (step_Piano e s))) \<and>
    (n \<notin> overlapped
        (track (released_by_Piano e) (timeouts s) (timeouts (fst (step_Piano e s))) g) \<longrightarrow>
       count_list (timeouts (fst (step_Piano e s))) n \<le> 1 \<and>
       (n \<in> activeKeys (fst (step_Piano e s)) \<longleftrightarrow>
          n \<in> set (timeouts (fst (step_Piano e s))) \<and>
          n \<notin> released
            (track (released_by_Piano e) (timeouts s) (timeouts (fst (step_Piano e s))) g)))"
    using Cons.prems step_Piano_shape [of e s] by (rule track_step)
  then show ?case
    using Cons.IH
      [of "fst (step_Piano e s)"
          "track (released_by_Piano e) (timeouts s) (timeouts (fst (step_Piano e s))) g"]
    by simp
qed

lemma trace_Drums_inv:
  "activePads s \<subseteq> set (timeouts s) \<Longrightarrow>
   (n \<notin> overlapped g \<longrightarrow>
      count_list (timeouts s) n \<le> 1 \<and>
      (n \<in> activePads s \<longleftrightarrow> n \<in> set (timeouts s) \<and> n \<notin> released g)) \<Longrightarrow>
   n \<notin> overlapped (snd (trace_Drums es s g)) \<longrightarrow>
     (n \<in> activePads (fst (trace_Drums es s g)) \<longleftrightarrow>
        n \<in> set (timeouts (fst (trace_Drums es s g))) \<and>
        n \<notin> released (snd (trace_Drums es s g)))"
proof (induction es arbitrary: s g)
  case Nil
  then show ?case by simp
next
  case (Cons e es)
  have "activePads (fst (step_Drums e s)) \<subseteq> set (timeouts (fst (step_Drums e s))) \<and>
    (n \<notin> overlapped
        (track (released_by_Drums e) (timeouts s) (timeouts (fst (step_Drums e s))) g) \<longrightarrow>
       count_list (timeouts (fst (step_Drums e s))) n \<le> 1 \<and>
       (n \<in> activePads (fst (step_Drums e s)) \<longleftrightarrow>
          n \<in> set (timeouts (fst (step_Drums e s))) \<and>
          n \<notin> released
            (track (released_by_Drums e) (timeouts s) (timeouts (fst (step_Drums e s))) g)))"
    using Cons.prems step_Drums_shape [of e s] by (rule track_step)
  then show ?case
    using Cons.IH
      [of "fst (step_Drums e s)"
          "track (released_by_Drums e) (timeouts s) (timeouts (fst (step_Drums e s))) g"]
    by simp
qed

text \<open>
  C6, amended. In every state a mounted panel reaches, for a note (or pad) that has not
  been played again while an earlier window of it was still open: the note is shown
  active if and only if a key mapped to it is held, or its window is open and no key
  mapped to it has been released since its latest play. For every note, it is shown
  active if a key mapped to it is held, and only if its window is open or a key mapped
  to it is held.
\<close>

theorem visual_active_amended:
  "(n \<notin> overlapped (snd (trace_Piano es (mounted_Piano r) no_past)) \<longrightarrow>
      (isKeyActive n (fst (run_Piano es (mounted_Piano r))) \<longleftrightarrow>
         key_held_Piano n (fst (run_Piano es (mounted_Piano r))) \<or>
         window_open n (fst (run_Piano es (mounted_Piano r))) \<and>
         n \<notin> released (snd (trace_Piano es (mounted_Piano r) no_past)))) \<and>
   (key_held_Piano n (fst (run_Piano es (mounted_Piano r))) \<longrightarrow>
      isKeyActive n (fst (run_Piano es (mounted_Piano r)))) \<and>
   (isKeyActive n (fst (run_Piano es (mounted_Piano r))) \<longrightarrow>
      window_open n (fst (run_Piano es (mounted_Piano r))) \<or>
      key_held_Piano n (fst (run_Piano es (mounted_Piano r)))) \<and>
   (p \<notin> overlapped (snd (trace_Drums ds (mounted_Drums r') no_past)) \<longrightarrow>
      (isPadActive p (fst (run_Drums ds (mounted_Drums r'))) \<longleftrightarrow>
         key_held_Drums p (fst (run_Drums ds (mounted_Drums r'))) \<or>
         window_open p (fst (run_Drums ds (mounted_Drums r'))) \<and>
         p \<notin> released (snd (trace_Drums ds (mounted_Drums r') no_past)))) \<and>
   (key_held_Drums p (fst (run_Drums ds (mounted_Drums r'))) \<longrightarrow>
      isPadActive p (fst (run_Drums ds (mounted_Drums r')))) \<and>
   (isPadActive p (fst (run_Drums ds (mounted_Drums r'))) \<longrightarrow>
      window_open p (fst (run_Drums ds (mounted_Drums r'))) \<or>
      key_held_Drums p (fst (run_Drums ds (mounted_Drums r'))))"
proof -
  have p0: "activeKeys (mounted_Piano r) \<subseteq> set (timeouts (mounted_Piano r))"
    by (simp add: mounted_Piano_def)
  have p1: "n \<notin> overlapped no_past \<longrightarrow>
      count_list (timeouts (mounted_Piano r)) n \<le> 1 \<and>
      (n \<in> activeKeys (mounted_Piano r) \<longleftrightarrow>
         n \<in> set (timeouts (mounted_Piano r)) \<and> n \<notin> released no_past)"
    by (simp add: mounted_Piano_def)
  have a: "activeKeys (fst (run_Piano es (mounted_Piano r)))
      \<subseteq> set (timeouts (fst (run_Piano es (mounted_Piano r))))"
    using p0 by (rule run_Piano_active)
  have c: "n \<notin> overlapped (snd (trace_Piano es (mounted_Piano r) no_past)) \<longrightarrow>
      (n \<in> activeKeys (fst (run_Piano es (mounted_Piano r))) \<longleftrightarrow>
         n \<in> set (timeouts (fst (run_Piano es (mounted_Piano r)))) \<and>
         n \<notin> released (snd (trace_Piano es (mounted_Piano r) no_past)))"
    using trace_Piano_inv [OF p0 p1, of es] by (simp add: trace_Piano_fst)
  have d0: "activePads (mounted_Drums r') \<subseteq> set (timeouts (mounted_Drums r'))"
    by (simp add: mounted_Drums_def)
  have d1: "p \<notin> overlapped no_past \<longrightarrow>
      count_list (timeouts (mounted_Drums r')) p \<le> 1 \<and>
      (p \<in> activePads (mounted_Drums r') \<longleftrightarrow>
         p \<in> set (timeouts (mounted_Drums r')) \<and> p \<notin> released no_past)"
    by (simp add: mounted_Drums_def)
  have b: "activePads (fst (run_Drums ds (mounted_Drums r')))
      \<subseteq> set (timeouts (fst (run_Drums ds (mounted_Drums r'))))"
    using d0 by (rule run_Drums_active)
  have d: "p \<notin> overlapped (snd (trace_Drums ds (mounted_Drums r') no_past)) \<longrightarrow>
      (p \<in> activePads (fst (run_Drums ds (mounted_Drums r'))) \<longleftrightarrow>
         p \<in> set (timeouts (fst (run_Drums ds (mounted_Drums r')))) \<and>
         p \<notin> released (snd (trace_Drums ds (mounted_Drums r') no_past)))"
    using trace_Drums_inv [OF d0 d1, of ds] by (simp add: trace_Drums_fst)
  show ?thesis
    using a b c d unfolding isKeyActive_iff isPadActive_iff window_open_def by blast
qed

theorem visual_active_amended_witness:
  "''C4'' \<notin> overlapped (snd (trace_Piano [MouseDown ''C4''] (mounted_Piano False) no_past)) \<and>
   ''C4'' \<notin> released (snd (trace_Piano [MouseDown ''C4''] (mounted_Piano False) no_past)) \<and>
   window_open ''C4'' (fst (run_Piano [MouseDown ''C4''] (mounted_Piano False))) \<and>
   isKeyActive ''C4'' (fst (run_Piano [MouseDown ''C4''] (mounted_Piano False))) \<and>
   ''Kick'' \<notin> overlapped (snd (trace_Drums [KeyDown ''s'', KeyUp ''s''] (mounted_Drums False) no_past)) \<and>
   ''Kick'' \<in> released (snd (trace_Drums [KeyDown ''s'', KeyUp ''s''] (mounted_Drums False) no_past)) \<and>
   \<not> key_held_Drums ''Kick'' (fst (run_Drums [KeyDown ''s'', KeyUp ''s''] (mounted_Drums False))) \<and>
   \<not> isPadActive ''Kick'' (fst (run_Drums [KeyDown ''s'', KeyUp ''s''] (mounted_Drums False)))"
proof -
  have low: "toLowerCase ''s'' = ''s''"
    by (simp add: toLowerCase_def lower_char_def capitals_def)
  have g1: "snd (trace_Piano [MouseDown ''C4''] (mounted_Piano False) no_past) =
      \<lparr>released = {}, overlapped = {}\<rparr>"
    by (simp add: mounted_Piano_def no_past_def track_def played_def handleKeyPress_def
        playNote_def whiteKeys_def)
  have w1: "window_open ''C4'' (fst (run_Piano [MouseDown ''C4''] (mounted_Piano False)))"
    by (simp add: window_open_def mounted_Piano_def handleKeyPress_def playNote_def
        whiteKeys_def)
  have g2: "snd (trace_Drums [KeyDown ''s'', KeyUp ''s''] (mounted_Drums False) no_past) =
      \<lparr>released = {''Kick''}, overlapped = {}\<rparr>"
    by (simp add: low mounted_Drums_def no_past_def track_def played_def
        handleKeyDown_Drums_def handleKeyUp_Drums_def playDrum_def drumSounds_def
        mounted_synths_def)
  have h2: "\<not> key_held_Drums ''Kick''
      (fst (run_Drums [KeyDown ''s'', KeyUp ''s''] (mounted_Drums False)))"
    by (simp add: low key_held_Drums_def mounted_Drums_def handleKeyDown_Drums_def
        handleKeyUp_Drums_def playDrum_def drumSounds_def mounted_synths_def)
  show ?thesis
    using w1 h2
      visual_active_amended
        [of "''C4''" "[MouseDown ''C4'']" False "''Kick''" "[KeyDown ''s'', KeyUp ''s'']" False]
    unfolding g1 g2 by simp
qed

end
